theory Spec2Isabelle
  imports Complex_Main
begin

section \<open>The canvas graph: data model\<close>

text \<open>
  The graph editing engine is the \<open>Canvas\<close> component. Its state is a pair of React state
  cells, \<open>nodes\<close> and \<open>edges\<close>, plus the cell \<open>copiedNodes\<close> and the save state. Strings
  are character lists, an optional field is an option, a missing \<open>selected\<close> flag is
  \<open>False\<close> (the code only tests it for truth).
\<close>

text \<open>
  JavaScript numbers are IEEE doubles, and the canvas only ever negates, adds and divides
  them. The model does not compute with them: a number is a given value (\<open>JsNum\<close>) or the
  result of one of these operations, kept as it is written in the code. So an equation
  between two numbers of the model holds in the code whatever the rounding is, and the
  model never says that two numbers differ.
\<close>

datatype number =
    JsNum real
  | JsNeg number
  | JsAdd number number
  | JsDiv number number

record position =
  pos_x :: number
  pos_y :: number

text \<open>
  The \<open>data\<close> payload of a node is opaque to the canvas. The constructors are the shapes the
  canvas itself builds (\<open>{}\<close>, \<open>{isSource}\<close>, \<open>{content: {url, type, name}}\<close>) and one for any
  other payload.
\<close>

datatype node_data =
    EmptyData
  | DropData bool
  | ImageContent string string string
  | OtherData string

record node =
  n_id :: string
  n_type :: "string option"
  n_data :: node_data
  n_position :: position
  n_origin :: "(number \<times> number) option"
  n_selected :: bool

record edge =
  e_id :: string
  e_type :: "string option"
  e_source :: string
  e_target :: string
  e_sourceHandle :: "string option"
  e_targetHandle :: "string option"

record connection =
  c_source :: string
  c_target :: string
  c_sourceHandle :: "string option"
  c_targetHandle :: "string option"

definition node_ids :: "node list \<Rightarrow> string set" where
  "node_ids nodes = n_id ` set nodes"

text \<open>
  An edge of type \<open>'temporary'\<close> is the drag artifact made by \<open>handleConnectEnd\<close>; every
  other edge (type \<open>'animated'\<close> from \<open>handleConnect\<close>) is persistent.
\<close>

definition temporary :: "edge \<Rightarrow> bool" where
  "temporary e = (e_type e = Some ''temporary'')"

definition persistent :: "edge \<Rightarrow> bool" where
  "persistent e = (\<not> temporary e)"

definition anyEdge :: "edge \<Rightarrow> bool" where
  "anyEdge e = True"

section \<open>Connection validation\<close>

text \<open>
  \<open>getOutgoers(node, nodes, edges)\<close> is a helper of the \<open>@xyflow/react\<close> library, which is not
  part of the repository. It is modelled on the library: no outgoers for a node whose id is
  empty; otherwise the ids of the targets of the edges leaving the node are collected, and
  the nodes of the collection carrying one of these ids are returned, in collection order.
  The edge type plays no role.
\<close>

definition getOutgoers :: "node \<Rightarrow> node list \<Rightarrow> edge list \<Rightarrow> node list" where
  "getOutgoers node nodes edges =
     (if n_id node = [] then []
      else let outgoerIds = set (map e_target (filter (\<lambda>edge. e_source edge = n_id node) edges))
           in filter (\<lambda>n. n_id n \<in> outgoerIds) nodes)"

text \<open>
  \<open>hasCycle\<close> is the inner function of \<open>isValidConnection\<close>. The set \<open>visited\<close> is one mutable
  object shared by all recursive calls, so the model returns it next to the answer.
  \<open>hasCycle_loop\<close> is the \<open>for ... of\<close> loop over the outgoers. The source returns
  \<open>undefined\<close> where no cycle is found; it is only tested for truth, so it is \<open>False\<close> here.
\<close>

function hasCycle :: "node list \<Rightarrow> edge list \<Rightarrow> string \<Rightarrow> node \<Rightarrow> string set \<Rightarrow> bool \<times> string set"
  and hasCycle_loop :: "node list \<Rightarrow> edge list \<Rightarrow> string \<Rightarrow> node list \<Rightarrow> string set \<Rightarrow> bool \<times> string set"
where
  "hasCycle nodes edges source node visited =
     (if n_id node \<in> visited then (False, visited)
      else hasCycle_loop nodes edges source (getOutgoers node nodes edges)
             (insert (n_id node) visited))"
| "hasCycle_loop nodes edges source [] visited = (False, visited)"
| "hasCycle_loop nodes edges source (outgoer # rest) visited =
     (if n_id outgoer = source then (True, visited)
      else let (found, visited') = hasCycle nodes edges source outgoer visited
           in if found then (True, visited')
              else hasCycle_loop nodes edges source rest visited')"
  by pat_completeness auto

lemma hasCycle_visited_grows:
  "hasCycle_hasCycle_loop_dom (Inl (nodes, edges, source, node, visited)) \<Longrightarrow>
     visited \<subseteq> snd (hasCycle nodes edges source node visited)"
  "hasCycle_hasCycle_loop_dom (Inr (nodes, edges, source, outgoers, visited)) \<Longrightarrow>
     visited \<subseteq> snd (hasCycle_loop nodes edges source outgoers visited)"
proof (induction nodes edges source node visited and nodes edges source outgoers visited
       rule: hasCycle_hasCycle_loop.pinduct)
  case (1 nodes edges source node visited)
  then show ?case by (auto simp: hasCycle.psimps)
next
  case (2 nodes edges source visited)
  then show ?case by (simp add: hasCycle_loop.psimps)
next
  case (3 nodes edges source outgoer rest visited)
  show ?case
  proof (cases "n_id outgoer = source")
    case True
    with 3(1) show ?thesis by (simp add: hasCycle_loop.psimps)
  next
    case False
    obtain found v1 where r: "hasCycle nodes edges source outgoer visited = (found, v1)"
      by (cases "hasCycle nodes edges source outgoer visited")
    from 3(2) [OF False] r have sub1: "visited \<subseteq> v1" by simp
    show ?thesis
    proof (cases found)
      case True
      with 3(1) False r sub1 show ?thesis by (simp add: hasCycle_loop.psimps)
    next
      case nf: False
      from 3(3) [OF False refl r [symmetric] nf]
      have "v1 \<subseteq> snd (hasCycle_loop nodes edges source rest v1)" .
      with 3(1) False r nf sub1 show ?thesis by (auto simp: hasCycle_loop.psimps)
    qed
  qed
qed

lemma getOutgoers_subset: "set (getOutgoers node nodes edges) \<subseteq> set nodes"
  by (auto simp: getOutgoers_def Let_def)

text \<open>
  The search always returns: each call of \<open>hasCycle\<close> that goes on adds an id to \<open>visited\<close>,
  and the loop walks a finite list.
\<close>

termination hasCycle
proof (relation "measures
    [\<lambda>a. case a of
        Inl (nodes, edges, source, node, visited) \<Rightarrow>
          card (insert (n_id node) (node_ids nodes) - visited)
      | Inr (nodes, edges, source, outgoers, visited) \<Rightarrow>
          card ((node_ids nodes \<union> node_ids outgoers) - visited),
     \<lambda>a. case a of
        Inl (nodes, edges, source, node, visited) \<Rightarrow> 0
      | Inr (nodes, edges, source, outgoers, visited) \<Rightarrow> Suc (length outgoers)]", goal_cases)
  case 1
  show ?case by simp
next
  case (2 nodes edges source node visited)
  have fin: "finite (insert (n_id node) (node_ids nodes) - visited)"
    by (simp add: node_ids_def)
  have "node_ids (getOutgoers node nodes edges) \<subseteq> node_ids nodes"
    using getOutgoers_subset [of node nodes edges] by (auto simp: node_ids_def)
  then have "(node_ids nodes \<union> node_ids (getOutgoers node nodes edges)) - insert (n_id node) visited
      \<subset> insert (n_id node) (node_ids nodes) - visited"
    using 2 by auto
  from psubset_card_mono [OF fin this] show ?case by simp
next
  case (3 nodes edges source outgoer rest visited)
  have fin: "finite ((node_ids nodes \<union> node_ids (outgoer # rest)) - visited)"
    by (simp add: node_ids_def)
  have "insert (n_id outgoer) (node_ids nodes) - visited
      \<subseteq> (node_ids nodes \<union> node_ids (outgoer # rest)) - visited"
    by (auto simp: node_ids_def)
  from card_mono [OF fin this] show ?case by auto
next
  case (4 nodes edges source outgoer rest visited x xa y)
  have fin: "finite ((node_ids nodes \<union> node_ids (outgoer # rest)) - visited)"
    by (simp add: node_ids_def)
  have dom: "hasCycle_hasCycle_loop_dom (Inl (nodes, edges, source, outgoer, visited))"
    using 4 by blast
  from hasCycle_visited_grows(1) [OF dom] 4 have "visited \<subseteq> y"
    by (metis snd_conv)
  then have "(node_ids nodes \<union> node_ids rest) - y
      \<subseteq> (node_ids nodes \<union> node_ids (outgoer # rest)) - visited"
    by (auto simp: node_ids_def)
  from card_mono [OF fin this] show ?case by auto
qed

declare hasCycle.simps [simp del]

text \<open>
  \<open>isValidConnection\<close>. The rule table \<open>isValidSourceTarget\<close> lives in \<open>lib/xyflow\<close>, which is
  not among the sources; it is a parameter. \<open>nodes\<close> and \<open>edges\<close> are what \<open>getNodes()\<close> and
  \<open>getEdges()\<close> return. An empty \<open>connection.source\<close> is falsy and skips the rule check.
\<close>

definition isValidConnection ::
  "(node \<Rightarrow> node \<Rightarrow> bool) \<Rightarrow> node list \<Rightarrow> edge list \<Rightarrow> connection \<Rightarrow> bool" where
  "isValidConnection isValidSourceTarget nodes edges connection =
     (let target = find (\<lambda>node. n_id node = c_target connection) nodes in
      if c_source connection \<noteq> [] \<and>
         (case (find (\<lambda>node. n_id node = c_source connection) nodes, target) of
            (Some source, Some tgt) \<Rightarrow> \<not> isValidSourceTarget source tgt
          | _ \<Rightarrow> True)
      then False
      else case target of
             None \<Rightarrow> False
           | Some tgt \<Rightarrow>
               if n_id tgt = c_source connection then False
               else \<not> fst (hasCycle nodes edges (c_source connection) tgt {}))"

text \<open>
  Modelled from the spec: \<open>isValidSourceTarget\<close> of \<open>lib/xyflow\<close> is missing from the sources.
  This sample rule follows the comment in \<open>isValidConnection\<close> ("Prevent connecting audio
  nodes to anything except transcribe nodes"). It only instantiates the parameter at
  concrete inputs; every general theorem holds for an arbitrary rule.
\<close>

definition audioFeedsTranscribe :: "node \<Rightarrow> node \<Rightarrow> bool" where
  "audioFeedsTranscribe source target =
     (n_type source = Some ''audio'' \<longrightarrow> n_type target = Some ''transcribe'')"

subsection \<open>Paths in the graph\<close>

text \<open>
  A link \<open>u \<rightarrow> v\<close> is an edge (of the kind \<open>P\<close>) from \<open>u\<close> to \<open>v\<close> where \<open>v\<close> is a node of the
  collection and \<open>u\<close> is a proper, non-empty id (\<open>nanoid()\<close> makes ids of 21 characters).
  \<open>path P nodes edges u vs\<close>: the vertices \<open>vs\<close> are visited in turn, starting from \<open>u\<close>.
\<close>

definition link :: "(edge \<Rightarrow> bool) \<Rightarrow> node list \<Rightarrow> edge list \<Rightarrow> string \<Rightarrow> string \<Rightarrow> bool" where
  "link P nodes edges u v =
     (u \<noteq> [] \<and> v \<in> node_ids nodes \<and>
      (\<exists>e \<in> set edges. P e \<and> e_source e = u \<and> e_target e = v))"

fun path :: "(edge \<Rightarrow> bool) \<Rightarrow> node list \<Rightarrow> edge list \<Rightarrow> string \<Rightarrow> string list \<Rightarrow> bool" where
  "path P nodes edges u [] = True"
| "path P nodes edges u (v # vs) = (link P nodes edges u v \<and> path P nodes edges v vs)"

definition closed_in :: "node list \<Rightarrow> edge list \<Rightarrow> string \<Rightarrow> string set \<Rightarrow> string set \<Rightarrow> bool" where
  "closed_in nodes edges source new final =
     (\<forall>u \<in> new. \<forall>v. link anyEdge nodes edges u v \<longrightarrow> v \<in> final \<and> v \<noteq> source)"

section \<open>The canvas state and the save coordinator\<close>

text \<open>
  Next to the React state cells the record keeps what the handlers do to their collaborators:
  \<open>save_pending\<close>: the debounce timer of \<open>save\<close> is armed; \<open>is_saving\<close>: the flag
  \<open>saveState.isSaving\<close>; \<open>in_flight\<close>: calls of \<open>updateProjectAction\<close> not yet answered;
  \<open>requests\<close>: the snapshots sent; \<open>saved_count\<close>: how often \<open>lastSaved\<close> was set;
  \<open>toasts\<close>: the messages given to \<open>handleError\<close>; \<open>console\<close>: the \<open>console.debug\<close> lines;
  \<open>tracked\<close>: the analytics events (node type and source).
\<close>

record canvas =
  nodes :: "node list"
  edges :: "edge list"
  copiedNodes :: "node list"
  save_pending :: bool
  is_saving :: bool
  in_flight :: nat
  requests :: "(node list \<times> edge list) list"
  saved_count :: nat
  toasts :: "string list"
  console :: "string list"
  tracked :: "(string \<times> string option) list"

text \<open>
  \<open>save()\<close> calls the debounced function: the one-second timer is armed, or armed anew.
  Time is not modelled: the timer firing is the event \<open>save_fire\<close>.
\<close>

definition save :: "canvas \<Rightarrow> canvas" where
  "save st = st\<lparr>save_pending := True\<rparr>"

text \<open>
  The timer fires and the body of the debounced callback runs up to its \<open>await\<close>.
  \<open>project_ok\<close> says that \<open>project.userId\<close> and \<open>project.id\<close> are there.
\<close>

definition save_fire :: "bool \<Rightarrow> canvas \<Rightarrow> canvas" where
  "save_fire project_ok st =
     (if \<not> save_pending st then st
      else let st1 = st\<lparr>save_pending := False\<rparr> in
        if is_saving st1 \<or> \<not> project_ok then st1
        else st1\<lparr>is_saving := True,
                 in_flight := Suc (in_flight st1),
                 requests := requests st1 @ [(nodes st1, edges st1)]\<rparr>)"

text \<open>
  The answer of \<open>updateProjectAction\<close> arrives: \<open>None\<close> for success, \<open>Some error\<close> for a
  failure, which goes to \<open>handleError\<close>; \<open>finally\<close> clears \<open>isSaving\<close>.
\<close>

definition save_done :: "string option \<Rightarrow> canvas \<Rightarrow> canvas" where
  "save_done response st =
     (if in_flight st = 0 then st
      else let st1 = (case response of
                        None \<Rightarrow> st\<lparr>saved_count := Suc (saved_count st)\<rparr>
                      | Some error \<Rightarrow> st\<lparr>toasts := toasts st @ [''Error saving project'']\<rparr>)
           in st1\<lparr>is_saving := False, in_flight := in_flight st1 - 1\<rparr>)"

datatype save_event = Mutation | TimerFires | Response "string option"

fun save_step :: "bool \<Rightarrow> canvas \<Rightarrow> save_event \<Rightarrow> canvas" where
  "save_step project_ok st Mutation = save st"
| "save_step project_ok st TimerFires = save_fire project_ok st"
| "save_step project_ok st (Response r) = save_done r st"

definition save_run :: "bool \<Rightarrow> save_event list \<Rightarrow> canvas \<Rightarrow> canvas" where
  "save_run project_ok events st = foldl (save_step project_ok) st events"

definition initial :: "node list \<Rightarrow> edge list \<Rightarrow> canvas" where
  "initial ns es =
     \<lparr>nodes = ns, edges = es, copiedNodes = [], save_pending = False, is_saving = False,
      in_flight = 0, requests = [], saved_count = 0, toasts = [], console = [], tracked = []\<rparr>"

text \<open>
  Modelled from the spec: \<open>nanoid()\<close> is a library call that returns a random string; the
  canvas relies on it for unique ids. The specification has an id "assigned at creation
  and never reused" and \<open>addNode\<close> generating "a fresh unique id". The model makes this
  exact: \<open>nanoid used\<close> is an id that none of the ids in \<open>used\<close> equals, where \<open>used\<close> are
  the ids present in the canvas and those drawn earlier in the same handler. No general
  statement below depends on what the id looks like, only on its being new.
\<close>

definition nanoid :: "string list \<Rightarrow> string" where
  "nanoid used = replicate (Suc (foldr max (map length used) 0)) CHR ''n''"

definition used_ids :: "canvas \<Rightarrow> string list" where
  "used_ids st = map n_id (nodes st) @ map e_id (edges st) @ map n_id (copiedNodes st)"

section \<open>Change sets\<close>

text \<open>
  \<open>applyNodeChanges\<close> and \<open>applyEdgeChanges\<close> are helpers of \<open>@xyflow/react\<close>, modelled on the
  library for the kinds of change the specification names (position, selection, removal; the
  selection flag of an edge is not part of the edge record). The library first
  gathers, for each id, the changes that concern it (a removal replaces what was gathered
  before), then walks the elements: an element with no change is kept, one whose first
  gathered change is a removal is dropped, any other gets its changes applied in order.
\<close>

datatype node_change =
    NodeRemove string
  | NodeSelect string bool
  | NodePosition string "position option"

fun node_change_id :: "node_change \<Rightarrow> string" where
  "node_change_id (NodeRemove i) = i"
| "node_change_id (NodeSelect i b) = i"
| "node_change_id (NodePosition i p) = i"

fun node_changes_for :: "string \<Rightarrow> node_change list \<Rightarrow> node_change list \<Rightarrow> node_change list" where
  "node_changes_for i gathered [] = gathered"
| "node_changes_for i gathered (NodeRemove j # cs) =
     node_changes_for i (if j = i then [NodeRemove j] else gathered) cs"
| "node_changes_for i gathered (c # cs) =
     node_changes_for i (if node_change_id c = i then gathered @ [c] else gathered) cs"

fun applyNodeChange :: "node \<Rightarrow> node_change \<Rightarrow> node" where
  "applyNodeChange element (NodeSelect i b) = element\<lparr>n_selected := b\<rparr>"
| "applyNodeChange element (NodePosition i (Some p)) = element\<lparr>n_position := p\<rparr>"
| "applyNodeChange element (NodePosition i None) = element"
| "applyNodeChange element (NodeRemove i) = element"

definition applyNodeChanges :: "node_change list \<Rightarrow> node list \<Rightarrow> node list" where
  "applyNodeChanges changes elements =
     concat (map (\<lambda>element.
       case node_changes_for (n_id element) [] changes of
         [] \<Rightarrow> [element]
       | NodeRemove j # cs \<Rightarrow> []
       | c # cs \<Rightarrow> [foldl applyNodeChange element (c # cs)]) elements)"

datatype edge_change =
    EdgeRemove string
  | EdgeSelect string bool


text \<open>
  The two change handlers given to React Flow. Each updates its own state cell and calls
  \<open>save()\<close>; the optional callbacks \<open>onNodesChange\<close> and \<open>onEdgesChange\<close> of the embedding
  page do not touch the canvas state.
\<close>

definition handleNodesChange :: "node_change list \<Rightarrow> canvas \<Rightarrow> canvas" where
  "handleNodesChange changes st = save (st\<lparr>nodes := applyNodeChanges changes (nodes st)\<rparr>)"



section \<open>Node operations\<close>

text \<open>
  The \<open>options\<close> object of \<open>addNode\<close>: \<open>data\<close> is taken out, the rest is spread over the new
  node after its defaults, so a key that is present wins. The result is the new id and the
  state.
\<close>

record node_options =
  o_data :: "node_data option"
  o_position :: "position option"
  o_origin :: "(number \<times> number) option"
  o_selected :: "bool option"

definition addNode :: "string \<Rightarrow> node_options \<Rightarrow> canvas \<Rightarrow> string \<times> canvas" where
  "addNode type options st =
     (let newNode =
            \<lparr>n_id = nanoid (used_ids st),
             n_type = Some type,
             n_data = (case o_data options of Some nodeData \<Rightarrow> nodeData | None \<Rightarrow> EmptyData),
             n_position = (case o_position options of
                             Some p \<Rightarrow> p | None \<Rightarrow> \<lparr>pos_x = JsNum 0, pos_y = JsNum 0\<rparr>),
             n_origin = (case o_origin options of
                           Some og \<Rightarrow> Some og | None \<Rightarrow> Some (JsNum 0, JsNum (1 / 2))),
             n_selected = (case o_selected options of Some b \<Rightarrow> b | None \<Rightarrow> False)\<rparr>;
          st1 = save (st\<lparr>nodes := nodes st @ [newNode]\<rparr>);
          st2 = st1\<lparr>tracked := tracked st1 @ [(type, None)]\<rparr>
      in (n_id newNode, st2))"

text \<open>
  \<open>getNode(id)\<close> and \<open>updateNode(id, {selected})\<close> of \<open>useReactFlow\<close> (library). React Flow
  keeps the nodes in a lookup table filled in collection order, so of several nodes with
  one id the last is found; the update is merged into every node carrying the id.
\<close>

definition getNode :: "string \<Rightarrow> canvas \<Rightarrow> node option" where
  "getNode i st = find (\<lambda>n. n_id n = i) (rev (nodes st))"

definition updateNode :: "string \<Rightarrow> bool \<Rightarrow> canvas \<Rightarrow> canvas" where
  "updateNode i sel st =
     st\<lparr>nodes := map (\<lambda>n. if n_id n = i then n\<lparr>n_selected := sel\<rparr> else n) (nodes st)\<rparr>"

text \<open>
  \<open>duplicateNode\<close>. The synchronous part returns the state and, when a node was added,
  the pair of ids that the callback given to \<open>setTimeout\<close> will use;
  \<open>duplicateNode_timeout\<close> is that callback, and \<open>duplicateNode_settled\<close> runs both, with
  nothing in between.
\<close>

definition duplicateNode :: "string \<Rightarrow> canvas \<Rightarrow> canvas \<times> (string \<times> string) option" where
  "duplicateNode i st =
     (case getNode i st of
        None \<Rightarrow> (st, None)
      | Some node \<Rightarrow>
          (case n_type node of
             None \<Rightarrow> (st, None)
           | Some type \<Rightarrow>
               if type = [] then (st, None)
               else let (newId, st1) =
                          addNode type
                            \<lparr>o_data = Some (n_data node),
                             o_position =
                               Some \<lparr>pos_x = JsAdd (pos_x (n_position node)) (JsNum 200),
                                     pos_y = JsAdd (pos_y (n_position node)) (JsNum 200)\<rparr>,
                             o_origin = n_origin node,
                             o_selected = Some True\<rparr>
                            st
                    in (st1, Some (i, newId))))"

definition duplicateNode_timeout :: "string \<Rightarrow> string \<Rightarrow> canvas \<Rightarrow> canvas" where
  "duplicateNode_timeout i newId st = updateNode newId True (updateNode i False st)"

definition duplicateNode_settled :: "string \<Rightarrow> canvas \<Rightarrow> canvas" where
  "duplicateNode_settled i st =
     (case duplicateNode i st of
        (st1, None) \<Rightarrow> st1
      | (st1, Some (j, newId)) \<Rightarrow> duplicateNode_timeout j newId st1)"





definition handleSelectAll :: "canvas \<Rightarrow> canvas" where
  "handleSelectAll st = st\<lparr>nodes := map (\<lambda>node. node\<lparr>n_selected := True\<rparr>) (nodes st)\<rparr>"

definition handleCopy :: "canvas \<Rightarrow> canvas" where
  "handleCopy st =
     (let selectedNodes = filter n_selected (nodes st)
      in if length selectedNodes > 0 then st\<lparr>copiedNodes := selectedNodes\<rparr> else st)"

section \<open>Paste\<close>

text \<open>
  What a paste gesture meets outside the canvas: the element that has the focus, the
  clipboard, the answer of \<open>uploadFile\<close> (\<open>Inl\<close> the error it throws, \<open>Inr\<close> the url and type),
  the viewport and the size of the window.
\<close>

datatype element =
    NoElement
  | HTMLInputElement
  | HTMLTextAreaElement
  | HTMLElement bool
  | OtherElement

fun typing :: "element \<Rightarrow> bool" where
  "typing HTMLInputElement = True"
| "typing HTMLTextAreaElement = True"
| "typing (HTMLElement isContentEditable) = isContentEditable"
| "typing NoElement = False"
| "typing OtherElement = False"

record clipboard_item =
  ci_types :: "string list"
  ci_getType_fails :: bool

datatype clipboard =
    ClipboardUnsupported
  | ClipboardReadFails string
  | ClipboardItems "clipboard_item list"

record viewport =
  v_x :: number
  v_y :: number
  v_zoom :: number

record image_file =
  f_name :: string
  f_type :: string

definition startsWith :: "string \<Rightarrow> string \<Rightarrow> bool" where
  "startsWith s p = (take (length p) s = p)"

definition imageTypes :: "clipboard_item \<Rightarrow> string list" where
  "imageTypes clipboardItem = filter (\<lambda>type. startsWith type ''image/'') (ci_types clipboardItem)"

text \<open>\<open>imageType.split('/')[1] || 'png'\<close>: the text between the first and the second slash.\<close>

definition clipboard_file :: "string \<Rightarrow> image_file" where
  "clipboard_file imageType =
     (let ext = takeWhile (\<lambda>c. c \<noteq> CHR ''/'') (drop 1 (dropWhile (\<lambda>c. c \<noteq> CHR ''/'') imageType))
      in \<lparr>f_name = ''clipboard-image.'' @ (if ext = [] then ''png'' else ext),
          f_type = imageType\<rparr>)"

text \<open>
  \<open>handlePasteImage\<close>: the upload comes first and may throw; then the node is added at the
  centre computed from the viewport and the size of the window (\<open>innerWidth\<close>,
  \<open>innerHeight\<close>), and a second analytics event is sent.
\<close>

definition handlePasteImage ::
  "string + string \<times> string \<Rightarrow> viewport \<Rightarrow> number \<times> number \<Rightarrow> image_file \<Rightarrow> canvas
     \<Rightarrow> string + canvas" where
  "handlePasteImage upload vp window f st =
     (case upload of
        Inl error \<Rightarrow> Inl error
      | Inr (url, type) \<Rightarrow>
          let centerX = JsAdd (JsDiv (JsNeg (v_x vp)) (v_zoom vp))
                              (JsDiv (JsDiv (fst window) (JsNum 2)) (v_zoom vp));
              centerY = JsAdd (JsDiv (JsNeg (v_y vp)) (v_zoom vp))
                              (JsDiv (JsDiv (snd window) (JsNum 2)) (v_zoom vp));
              (newId, st1) =
                addNode ''image''
                  \<lparr>o_data = Some (ImageContent url type (f_name f)),
                   o_position = Some \<lparr>pos_x = centerX, pos_y = centerY\<rparr>,
                   o_origin = None, o_selected = None\<rparr>
                  st
          in Inr (st1\<lparr>tracked := tracked st1 @ [(''image'', Some ''clipboard'')]\<rparr>))"

text \<open>
  The loop of \<open>handlePaste\<close> over the clipboard items, inside the \<open>try\<close>. \<open>None\<close>: the loop
  ended without an image; \<open>Some (Inl e)\<close>: something threw; \<open>Some (Inr st)\<close>: the image was
  handled and the handler returns.
\<close>

fun paste_clipboard_items ::
  "clipboard_item list \<Rightarrow> string + string \<times> string \<Rightarrow> viewport \<Rightarrow> number \<times> number
     \<Rightarrow> canvas \<Rightarrow> (string + canvas) option" where
  "paste_clipboard_items [] upload vp window st = None"
| "paste_clipboard_items (clipboardItem # rest) upload vp window st =
     (case imageTypes clipboardItem of
        [] \<Rightarrow> paste_clipboard_items rest upload vp window st
      | imageType # others \<Rightarrow>
          if ci_getType_fails clipboardItem then Some (Inl ''getType'')
          else Some (handlePasteImage upload vp window (clipboard_file imageType) st))"

text \<open>
  The fall-back of \<open>handlePaste\<close>: the copied nodes are cloned, each with an id drawn from
  \<open>nanoid()\<close> in turn, moved by 200 and selected; the existing nodes are deselected.
\<close>

fun clone_nodes :: "string list \<Rightarrow> node list \<Rightarrow> node list" where
  "clone_nodes used [] = []"
| "clone_nodes used (node # rest) =
     (let newId = nanoid used
      in node\<lparr>n_id := newId,
              n_position := \<lparr>pos_x = JsAdd (pos_x (n_position node)) (JsNum 200),
                             pos_y = JsAdd (pos_y (n_position node)) (JsNum 200)\<rparr>,
              n_selected := True\<rparr>
         # clone_nodes (newId # used) rest)"

definition paste_copied :: "canvas \<Rightarrow> canvas" where
  "paste_copied st =
     (if length (copiedNodes st) = 0 then st
      else let newNodes = clone_nodes (used_ids st) (copiedNodes st);
               st1 = st\<lparr>nodes := map (\<lambda>node. node\<lparr>n_selected := False\<rparr>) (nodes st)\<rparr>
           in st1\<lparr>nodes := nodes st1 @ newNodes\<rparr>)"

definition handlePaste ::
  "element \<Rightarrow> clipboard \<Rightarrow> string + string \<times> string \<Rightarrow> viewport \<Rightarrow> number \<times> number
     \<Rightarrow> canvas \<Rightarrow> canvas" where
  "handlePaste activeElement clip upload vp window st =
     (if typing activeElement then st
      else case clip of
             ClipboardUnsupported \<Rightarrow> paste_copied st
           | ClipboardReadFails error \<Rightarrow>
               paste_copied (st\<lparr>console := console st @ [error]\<rparr>)
           | ClipboardItems clipboardItems \<Rightarrow>
               (case paste_clipboard_items clipboardItems upload vp window st of
                  None \<Rightarrow> paste_copied st
                | Some (Inl error) \<Rightarrow>
                    paste_copied (st\<lparr>console := console st @ [error]\<rparr>)
                | Some (Inr st1) \<Rightarrow> st1))"

text \<open>
  The listener for the native paste event (registered once a project is loaded). An item
  is its type and what \<open>getAsFile()\<close> gives; \<open>items\<close> is \<open>None\<close> when the event has no
  clipboard data. Nothing catches an error of \<open>handlePasteImage\<close> here: it is the result.
\<close>

fun paste_event_items ::
  "(string \<times> image_file option) list \<Rightarrow> string + string \<times> string \<Rightarrow> viewport
     \<Rightarrow> number \<times> number \<Rightarrow> canvas \<Rightarrow> string + canvas" where
  "paste_event_items [] upload vp window st = Inr st"
| "paste_event_items ((type, f) # rest) upload vp window st =
     (if startsWith type ''image/'' then
        (case f of
           None \<Rightarrow> paste_event_items rest upload vp window st
         | Some fl \<Rightarrow> handlePasteImage upload vp window fl st)
      else paste_event_items rest upload vp window st)"

definition handlePasteEvent ::
  "element \<Rightarrow> (string \<times> image_file option) list option \<Rightarrow> string + string \<times> string \<Rightarrow> viewport
     \<Rightarrow> number \<times> number \<Rightarrow> canvas \<Rightarrow> string + canvas" where
  "handlePasteEvent target items upload vp window st =
     (if typing target then Inr st
      else case items of
             None \<Rightarrow> Inr st
           | Some its \<Rightarrow> paste_event_items its upload vp window st)"

section \<open>Sample values\<close>

text \<open>Small nodes, edges, graphs and surroundings for the concrete instances below.\<close>

definition mk_node :: "string \<Rightarrow> string \<Rightarrow> node" where
  "mk_node i type =
     \<lparr>n_id = i, n_type = Some type, n_data = EmptyData,
      n_position = \<lparr>pos_x = JsNum 0, pos_y = JsNum 0\<rparr>,
      n_origin = Some (JsNum 0, JsNum (1 / 2)), n_selected = False\<rparr>"

definition mk_edge :: "string \<Rightarrow> string \<Rightarrow> string \<Rightarrow> string \<Rightarrow> edge" where
  "mk_edge i type s t =
     \<lparr>e_id = i, e_type = Some type, e_source = s, e_target = t,
      e_sourceHandle = None, e_targetHandle = None\<rparr>"


text \<open>
  The sample canvas: node \<open>A\<close> (an image at \<open>(10, 20)\<close>, selected) feeds node \<open>B\<close>, and
  the selection has been copied.
\<close>

definition sample_A :: node where
  "sample_A = (mk_node ''A'' ''image'')
     \<lparr>n_position := \<lparr>pos_x = JsNum 10, pos_y = JsNum 20\<rparr>, n_selected := True\<rparr>"

definition sample_canvas :: canvas where
  "sample_canvas =
     handleCopy (initial [sample_A, mk_node ''B'' ''transcribe'']
                         [mk_edge ''e1'' ''animated'' ''A'' ''B''])"

text \<open>A chain of four nodes whose first edge is temporary.\<close>

definition chain_nodes :: "node list" where
  "chain_nodes = [mk_node ''A'' ''text'', mk_node ''B'' ''drop'', mk_node ''C'' ''image'',
                  mk_node ''D'' ''image'']"

definition chain_edges :: "edge list" where
  "chain_edges = [mk_edge ''e1'' ''temporary'' ''A'' ''B'', mk_edge ''e2'' ''animated'' ''B'' ''C'',
                  mk_edge ''e3'' ''animated'' ''C'' ''D'']"

definition sample_viewport :: viewport where
  "sample_viewport = \<lparr>v_x = JsNum 100, v_y = JsNum 50, v_zoom = JsNum 2\<rparr>"

definition sample_window :: "number \<times> number" where
  "sample_window = (JsNum 1280, JsNum 720)"

definition sample_text_clipboard :: clipboard where
  "sample_text_clipboard = ClipboardItems [\<lparr>ci_types = [''text/plain''], ci_getType_fails = False\<rparr>]"

definition sample_image_clipboard :: clipboard where
  "sample_image_clipboard =
     ClipboardItems [\<lparr>ci_types = [''text/html'', ''image/png''], ci_getType_fails = False\<rparr>]"

section \<open>Notions used in the statements\<close>






text \<open>
  The invariant of the save coordinator: a request is outstanding exactly while
  \<open>isSaving\<close> is set, and then it is the only one.
\<close>

definition save_inv :: "canvas \<Rightarrow> bool" where
  "save_inv st = (in_flight st = (if is_saving st then 1 else 0))"

text \<open>
  \<open>has_image\<close>: the clipboard item offers an image type. \<open>paste_fails\<close>: the paste of an
  image fails, because reading the clipboard is refused or throws (at
  \<open>navigator.clipboard.read()\<close>, or at \<open>getType\<close> for the first item that offers an
  image), or because the upload of that image throws.
\<close>

definition has_image :: "clipboard_item \<Rightarrow> bool" where
  "has_image clipboardItem = (imageTypes clipboardItem \<noteq> [])"

fun paste_fails :: "clipboard \<Rightarrow> string + string \<times> string \<Rightarrow> bool" where
  "paste_fails ClipboardUnsupported upload = False"
| "paste_fails (ClipboardReadFails error) upload = True"
| "paste_fails (ClipboardItems clipboardItems) upload =
     (case find has_image clipboardItems of
        None \<Rightarrow> False
      | Some clipboardItem \<Rightarrow> ci_getType_fails clipboardItem \<or> isl upload)"

text \<open>
  \<open>exact\<close> reads a number with its operations carried out over the reals, without any
  rounding: what the code would compute if doubles were exact.
\<close>

fun exact :: "number \<Rightarrow> real" where
  "exact (JsNum r) = r"
| "exact (JsNeg a) = - exact a"
| "exact (JsAdd a b) = exact a + exact b"
| "exact (JsDiv a b) = exact a / exact b"

section \<open>The cycle search is a reachability test\<close>

lemma getOutgoers_iff:
  "n \<in> set (getOutgoers node ns es) \<longleftrightarrow>
     n \<in> set ns \<and> n_id node \<noteq> [] \<and>
     (\<exists>e \<in> set es. e_source e = n_id node \<and> e_target e = n_id n)"
  by (cases "n_id node = []") (auto simp: getOutgoers_def Let_def intro: rev_image_eqI)

lemma link_outgoer:
  "link anyEdge ns es (n_id node) v \<longleftrightarrow>
     (\<exists>n \<in> set (getOutgoers node ns es). n_id n = v)"
proof
  assume "link anyEdge ns es (n_id node) v"
  then obtain n e where "n \<in> set ns" "n_id n = v" "n_id node \<noteq> []" "e \<in> set es"
    "e_source e = n_id node" "e_target e = v"
    by (auto simp: link_def node_ids_def)
  then have "n \<in> set (getOutgoers node ns es) \<and> n_id n = v"
    by (auto simp: getOutgoers_iff)
  then show "\<exists>n \<in> set (getOutgoers node ns es). n_id n = v" by blast
next
  assume "\<exists>n \<in> set (getOutgoers node ns es). n_id n = v"
  then show "link anyEdge ns es (n_id node) v"
    by (auto simp: link_def getOutgoers_iff node_ids_def anyEdge_def)
qed

lemma link_anyEdge: "link P ns es u v \<Longrightarrow> link anyEdge ns es u v"
  by (auto simp: link_def anyEdge_def)

lemma path_anyEdge: "path P ns es u vs \<Longrightarrow> path anyEdge ns es u vs"
  by (induction vs arbitrary: u) (auto intro: link_anyEdge)

lemma hasCycle_sound:
  "fst (hasCycle ns es source node visited) \<Longrightarrow>
     \<exists>vs. vs \<noteq> [] \<and> path anyEdge ns es (n_id node) vs \<and> last vs = source"
  "fst (hasCycle_loop ns es source outgoers visited) \<Longrightarrow>
     \<exists>n \<in> set outgoers. n_id n = source \<or>
        (\<exists>vs. vs \<noteq> [] \<and> path anyEdge ns es (n_id n) vs \<and> last vs = source)"
proof (induction ns es source node visited and ns es source outgoers visited
       rule: hasCycle_hasCycle_loop.induct)
  case (1 ns es source node visited)
  show ?case
  proof (cases "n_id node \<in> visited")
    case True
    with 1(2) show ?thesis by (simp add: hasCycle.simps [of ns es source node visited])
  next
    case False
    with 1(2) have "fst (hasCycle_loop ns es source (getOutgoers node ns es)
        (insert (n_id node) visited))"
      by (simp add: hasCycle.simps [of ns es source node visited])
    from 1(1) [OF False this] obtain n where
      n: "n \<in> set (getOutgoers node ns es)" and
      d: "n_id n = source \<or>
          (\<exists>vs. vs \<noteq> [] \<and> path anyEdge ns es (n_id n) vs \<and> last vs = source)"
      by blast
    from n have l: "link anyEdge ns es (n_id node) (n_id n)"
      using link_outgoer by blast
    from d show ?thesis
    proof
      assume "n_id n = source"
      with l have "path anyEdge ns es (n_id node) [source] \<and> last [source] = source"
        by simp
      then show ?thesis by blast
    next
      assume "\<exists>vs. vs \<noteq> [] \<and> path anyEdge ns es (n_id n) vs \<and> last vs = source"
      then obtain vs where "vs \<noteq> []" "path anyEdge ns es (n_id n) vs" "last vs = source"
        by blast
      with l have "n_id n # vs \<noteq> [] \<and> path anyEdge ns es (n_id node) (n_id n # vs)
          \<and> last (n_id n # vs) = source"
        by simp
      then show ?thesis by blast
    qed
  qed
next
  case (2 ns es source visited)
  then show ?case by simp
next
  case (3 ns es source outgoer rest visited)
  show ?case
  proof (cases "n_id outgoer = source")
    case True
    then show ?thesis by simp
  next
    case False
    obtain found v1 where r: "hasCycle ns es source outgoer visited = (found, v1)"
      by (cases "hasCycle ns es source outgoer visited")
    show ?thesis
    proof (cases found)
      case True
      with r have "fst (hasCycle ns es source outgoer visited)" by simp
      from 3(1) [OF False this] show ?thesis by auto
    next
      case nf: False
      with 3(3) False r have "fst (hasCycle_loop ns es source rest v1)" by simp
      from 3(2) [OF False refl r [symmetric] nf this] show ?thesis by auto
    qed
  qed
qed

lemma hasCycle_complete:
  "hasCycle ns es source node visited = (False, final) \<Longrightarrow>
     visited \<subseteq> final \<and> n_id node \<in> final \<and> closed_in ns es source (final - visited) final"
  "hasCycle_loop ns es source outgoers visited = (False, final) \<Longrightarrow>
     visited \<subseteq> final \<and> (\<forall>n \<in> set outgoers. n_id n \<in> final \<and> n_id n \<noteq> source) \<and>
     closed_in ns es source (final - visited) final"
proof (induction ns es source node visited and ns es source outgoers visited
       arbitrary: final and final rule: hasCycle_hasCycle_loop.induct)
  case (1 ns es source node visited)
  show ?case
  proof (cases "n_id node \<in> visited")
    case True
    with 1(2) have "final = visited"
      by (simp add: hasCycle.simps [of ns es source node visited])
    with True show ?thesis by (simp add: closed_in_def)
  next
    case False
    with 1(2) have "hasCycle_loop ns es source (getOutgoers node ns es)
        (insert (n_id node) visited) = (False, final)"
      by (simp add: hasCycle.simps [of ns es source node visited])
    from 1(1) [OF False this] have
      sub: "insert (n_id node) visited \<subseteq> final" and
      outs: "\<forall>n \<in> set (getOutgoers node ns es). n_id n \<in> final \<and> n_id n \<noteq> source" and
      cl: "closed_in ns es source (final - insert (n_id node) visited) final"
      by blast+
    have "closed_in ns es source (final - visited) final"
      unfolding closed_in_def
    proof (intro ballI allI impI)
      fix u v assume u: "u \<in> final - visited" and l: "link anyEdge ns es u v"
      show "v \<in> final \<and> v \<noteq> source"
      proof (cases "u = n_id node")
        case True
        with l have "\<exists>n \<in> set (getOutgoers node ns es). n_id n = v"
          by (simp add: link_outgoer)
        with outs show ?thesis by blast
      next
        case False
        with u have "u \<in> final - insert (n_id node) visited" by simp
        with cl l show ?thesis unfolding closed_in_def by blast
      qed
    qed
    with sub show ?thesis by blast
  qed
next
  case (2 ns es source visited)
  then show ?case by (auto simp: closed_in_def)
next
  case (3 ns es source outgoer rest visited)
  from 3(3) have ne: "n_id outgoer \<noteq> source" by (auto split: if_splits)
  obtain found v1 where r: "hasCycle ns es source outgoer visited = (found, v1)"
    by (cases "hasCycle ns es source outgoer visited")
  from 3(3) ne r have nf: "\<not> found" by (auto split: if_splits)
  from 3(3) ne r nf have l: "hasCycle_loop ns es source rest v1 = (False, final)" by simp
  from r nf have "hasCycle ns es source outgoer visited = (False, v1)" by simp
  from 3(1) [OF ne this] have
    a1: "visited \<subseteq> v1" and a2: "n_id outgoer \<in> v1" and
    a3: "closed_in ns es source (v1 - visited) v1"
    by blast+
  from 3(2) [OF ne refl r [symmetric] nf l] have
    b1: "v1 \<subseteq> final" and b2: "\<forall>n \<in> set rest. n_id n \<in> final \<and> n_id n \<noteq> source" and
    b3: "closed_in ns es source (final - v1) final"
    by blast+
  have "closed_in ns es source (final - visited) final"
    unfolding closed_in_def
  proof (intro ballI allI impI)
    fix u v assume u: "u \<in> final - visited" and l: "link anyEdge ns es u v"
    show "v \<in> final \<and> v \<noteq> source"
    proof (cases "u \<in> v1")
      case True
      with u have "u \<in> v1 - visited" by simp
      with a3 l have "v \<in> v1 \<and> v \<noteq> source" unfolding closed_in_def by blast
      with b1 show ?thesis by blast
    next
      case False
      with u have "u \<in> final - v1" by simp
      with b3 l show ?thesis unfolding closed_in_def by blast
    qed
  qed
  with a1 a2 b1 b2 ne show ?case by auto
qed

lemma closed_path:
  "closed_in ns es source final final \<Longrightarrow> u \<in> final \<Longrightarrow>
     path anyEdge ns es u vs \<Longrightarrow> vs \<noteq> [] \<Longrightarrow> last vs \<noteq> source"
proof (induction vs arbitrary: u)
  case Nil
  then show ?case by simp
next
  case (Cons v vs)
  then have "v \<in> final \<and> v \<noteq> source" by (auto simp: closed_in_def)
  with Cons show ?case by (cases vs) auto
qed

lemma hasCycle_iff_path:
  "fst (hasCycle ns es source node {}) \<longleftrightarrow>
     (\<exists>vs. vs \<noteq> [] \<and> path anyEdge ns es (n_id node) vs \<and> last vs = source)"
proof
  assume "fst (hasCycle ns es source node {})"
  then show "\<exists>vs. vs \<noteq> [] \<and> path anyEdge ns es (n_id node) vs \<and> last vs = source"
    by (rule hasCycle_sound(1))
next
  assume p: "\<exists>vs. vs \<noteq> [] \<and> path anyEdge ns es (n_id node) vs \<and> last vs = source"
  show "fst (hasCycle ns es source node {})"
  proof (rule ccontr)
    assume "\<not> fst (hasCycle ns es source node {})"
    then obtain final where "hasCycle ns es source node {} = (False, final)"
      by (cases "hasCycle ns es source node {}") auto
    from hasCycle_complete(1) [OF this] have "n_id node \<in> final"
      "closed_in ns es source final final" by auto
    with p closed_path show False by blast
  qed
qed

text \<open>The connection check, read off its definition.\<close>

lemma isValidConnection_iff:
  "isValidConnection rule ns es c \<longleftrightarrow>
     (\<exists>tgt. find (\<lambda>node. n_id node = c_target c) ns = Some tgt \<and>
        (c_source c \<noteq> [] \<longrightarrow>
           (\<exists>src. find (\<lambda>node. n_id node = c_source c) ns = Some src \<and> rule src tgt)) \<and>
        n_id tgt \<noteq> c_source c \<and>
        \<not> fst (hasCycle ns es (c_source c) tgt {}))"
  by (auto simp: isValidConnection_def Let_def split: option.splits)

lemma find_id: "find (\<lambda>node. n_id node = i) ns = Some n \<Longrightarrow> n_id n = i"
  by (auto simp: find_Some_iff)

section \<open>Claims about connection validation\<close>

text \<open>
  Claim C1. Whenever a directed path of persistent edges leads from node \<open>t\<close> to node \<open>s\<close>
  (through nodes of the collection, \<open>vs\<close> being the nodes after \<open>t\<close>, the last of them
  \<open>s\<close>; the empty path is \<open>t = s\<close>), \<open>isValidConnection\<close> returns false for the candidate
  with source \<open>s\<close> and target \<open>t\<close>, whatever the rule table and the handles.
\<close>

theorem isValidConnection_rejects_cycle:
  assumes "path persistent ns es t vs" and "last (t # vs) = s"
  shows "\<not> isValidConnection isValidSourceTarget ns es
           \<lparr>c_source = s, c_target = t, c_sourceHandle = sh, c_targetHandle = th\<rparr>"
proof
  let ?c = "\<lparr>c_source = s, c_target = t, c_sourceHandle = sh, c_targetHandle = th\<rparr>"
  assume "isValidConnection isValidSourceTarget ns es ?c"
  then obtain tgt where
    f: "find (\<lambda>node. n_id node = t) ns = Some tgt" and
    ne: "n_id tgt \<noteq> s" and
    nc: "\<not> fst (hasCycle ns es s tgt {})"
    by (auto simp: isValidConnection_iff)
  from f have t: "n_id tgt = t" by (rule find_id)
  with ne assms(2) have "vs \<noteq> []" by auto
  with assms have "vs \<noteq> [] \<and> path anyEdge ns es (n_id tgt) vs \<and> last vs = s"
    using t path_anyEdge by auto
  then have "fst (hasCycle ns es s tgt {})"
    unfolding hasCycle_iff_path by blast
  with nc show False by contradiction
qed


theorem isValidConnection_rejects_cycle_witness:
  "path persistent [mk_node ''A'' ''image'', mk_node ''B'' ''transcribe'']
      [mk_edge ''e1'' ''animated'' ''A'' ''B''] ''A'' [''B''] \<and>
   last [''A'', ''B''] = ''B'' \<and>
   \<not> isValidConnection audioFeedsTranscribe
       [mk_node ''A'' ''image'', mk_node ''B'' ''transcribe'']
       [mk_edge ''e1'' ''animated'' ''A'' ''B'']
       \<lparr>c_source = ''B'', c_target = ''A'', c_sourceHandle = None, c_targetHandle = None\<rparr>"
  using isValidConnection_rejects_cycle
    [of "[mk_node ''A'' ''image'', mk_node ''B'' ''transcribe'']"
        "[mk_edge ''e1'' ''animated'' ''A'' ''B'']" "''A''" "[''B'']" "''B''"
        audioFeedsTranscribe None None]
  by (simp add: link_def persistent_def temporary_def node_ids_def mk_node_def mk_edge_def)

text \<open>
  Claim C3, as the code has it. The search takes the edges from \<open>getEdges()\<close> and hands
  them to \<open>getOutgoers\<close> unfiltered, so it follows edges of every kind, temporary ones
  included. What holds: if source and target are nodes of the collection, differ, pass the
  rule table, and no directed path of edges of any kind leads from the target back to the
  source, then \<open>isValidConnection\<close> returns true.
\<close>

theorem isValidConnection_accepts_without_path:
  assumes "find (\<lambda>node. n_id node = s) ns = Some src"
    and "find (\<lambda>node. n_id node = t) ns = Some tgt"
    and "s \<noteq> t"
    and "isValidSourceTarget src tgt"
    and "\<forall>vs. vs \<noteq> [] \<and> path anyEdge ns es t vs \<longrightarrow> last vs \<noteq> s"
  shows "isValidConnection isValidSourceTarget ns es
           \<lparr>c_source = s, c_target = t, c_sourceHandle = sh, c_targetHandle = th\<rparr>"
proof -
  from assms(2) have t: "n_id tgt = t" by (rule find_id)
  with assms(5) have "\<not> fst (hasCycle ns es s tgt {})"
    unfolding hasCycle_iff_path by blast
  with assms(1-4) t show ?thesis
    by (simp add: isValidConnection_iff)
qed

text \<open>
  An instance: in the chain \<open>A \<rightarrow> B \<rightarrow> C \<rightarrow> D\<close>, whose first edge is temporary, the candidate
  from \<open>A\<close> to \<open>C\<close> is accepted. The search starts at \<open>C\<close>, follows the edge to \<open>D\<close> and
  ends there, having visited \<open>C\<close> and \<open>D\<close>.
\<close>

theorem isValidConnection_accepts_without_path_witness:
  "find (\<lambda>node. n_id node = ''A'') chain_nodes = Some (mk_node ''A'' ''text'') \<and>
   find (\<lambda>node. n_id node = ''C'') chain_nodes = Some (mk_node ''C'' ''image'') \<and>
   ''A'' \<noteq> ''C'' \<and>
   audioFeedsTranscribe (mk_node ''A'' ''text'') (mk_node ''C'' ''image'') \<and>
   path anyEdge chain_nodes chain_edges ''C'' [''D''] \<and>
   snd (hasCycle chain_nodes chain_edges ''A'' (mk_node ''C'' ''image'') {}) = {''C'', ''D''} \<and>
   isValidConnection audioFeedsTranscribe chain_nodes chain_edges
     \<lparr>c_source = ''A'', c_target = ''C'', c_sourceHandle = None, c_targetHandle = None\<rparr>"
proof -
  have cl: "closed_in chain_nodes chain_edges ''A'' {''C'', ''D''} {''C'', ''D''}"
    by (auto simp: closed_in_def link_def chain_edges_def mk_edge_def)
  have np: "\<forall>vs. vs \<noteq> [] \<and> path anyEdge chain_nodes chain_edges ''C'' vs \<longrightarrow> last vs \<noteq> ''A''"
    using closed_path [OF cl] by blast
  have f1: "find (\<lambda>node. n_id node = ''A'') chain_nodes = Some (mk_node ''A'' ''text'')"
    by (simp add: chain_nodes_def mk_node_def)
  have f2: "find (\<lambda>node. n_id node = ''C'') chain_nodes = Some (mk_node ''C'' ''image'')"
    by (simp add: chain_nodes_def mk_node_def)
  have r: "audioFeedsTranscribe (mk_node ''A'' ''text'') (mk_node ''C'' ''image'')"
    by (simp add: audioFeedsTranscribe_def mk_node_def)
  have d: "''A'' \<noteq> ''C''" by simp
  have p: "path anyEdge chain_nodes chain_edges ''C'' [''D'']"
    by (simp add: link_def anyEdge_def node_ids_def chain_nodes_def chain_edges_def mk_node_def
        mk_edge_def)
  have v: "snd (hasCycle chain_nodes chain_edges ''A'' (mk_node ''C'' ''image'') {}) = {''C'', ''D''}"
    by (simp add: hasCycle.simps getOutgoers_def chain_nodes_def chain_edges_def mk_node_def
        mk_edge_def insert_commute)
  from f1 f2 d r np p v
    isValidConnection_accepts_without_path
      [where s = "''A''" and t = "''C''" and src = "mk_node ''A'' ''text''"
         and tgt = "mk_node ''C'' ''image''" and isValidSourceTarget = audioFeedsTranscribe
         and ns = chain_nodes and es = chain_edges and sh = None and th = None]
  show ?thesis by blast
qed

text \<open>
  The claim as stated fails: a graph whose only edge is temporary, from \<open>X\<close> to the drop
  node \<open>D\<close>. There is no persistent edge at all, the candidate from \<open>D\<close> to \<open>X\<close> is no
  self-loop and passes the rule, and yet it is rejected.
\<close>

theorem isValidConnection_follows_temporary_edge:
  "filter persistent [mk_edge ''e1'' ''temporary'' ''X'' ''D''] = [] \<and>
   ''D'' \<noteq> ''X'' \<and>
   audioFeedsTranscribe (mk_node ''D'' ''drop'') (mk_node ''X'' ''text'') \<and>
   \<not> isValidConnection audioFeedsTranscribe
       [mk_node ''X'' ''text'', mk_node ''D'' ''drop'']
       [mk_edge ''e1'' ''temporary'' ''X'' ''D'']
       \<lparr>c_source = ''D'', c_target = ''X'', c_sourceHandle = None, c_targetHandle = None\<rparr>"
  by (simp add: isValidConnection_def Let_def audioFeedsTranscribe_def persistent_def
      temporary_def mk_node_def mk_edge_def hasCycle.simps getOutgoers_def)

section \<open>Claims about the state store\<close>

lemma sample_canvas_eq:
  "sample_canvas =
     (initial [sample_A, mk_node ''B'' ''transcribe''] [mk_edge ''e1'' ''animated'' ''A'' ''B''])
       \<lparr>copiedNodes := [sample_A]\<rparr>"
  by (simp add: sample_canvas_def handleCopy_def initial_def sample_A_def mk_node_def Let_def)



















lemma node_ids_select: "node_ids (map (\<lambda>n. if P n then n\<lparr>n_selected := b\<rparr> else n) ns) = node_ids ns"
proof -
  have "map n_id (map (\<lambda>n. if P n then n\<lparr>n_selected := b\<rparr> else n) ns) = map n_id ns" by simp
  then have "set (map n_id (map (\<lambda>n. if P n then n\<lparr>n_selected := b\<rparr> else n) ns)) = set (map n_id ns)"
    by (rule arg_cong)
  then show ?thesis unfolding node_ids_def set_map .
qed















text \<open>The generated id is new.\<close>

lemma nanoid_fresh: "nanoid used \<notin> set used"
proof
  assume a: "nanoid used \<in> set used"
  have "length u \<le> foldr max (map length used) 0" if "u \<in> set used" for u
    using that by (induction used) auto
  from this [OF a] show False by (simp add: nanoid_def)
qed


lemma nanoid_not_node_id: "nanoid (used_ids st) \<notin> node_ids (nodes st)"
  using nanoid_fresh [of "used_ids st"] by (auto simp: used_ids_def node_ids_def)



section \<open>Claims about node operations\<close>

lemma find_rev_map_deselect:
  "find (\<lambda>n. n_id n = i) (rev ns) = Some original \<Longrightarrow>
   find (\<lambda>n. n_id n = i)
     (rev (map (\<lambda>n. if n_id n = i then n\<lparr>n_selected := False\<rparr> else n) ns))
     = Some (original\<lparr>n_selected := False\<rparr>)"
proof -
  have "find (\<lambda>n. n_id n = i) xs = Some original \<Longrightarrow>
      find (\<lambda>n. n_id n = i) (map (\<lambda>n. if n_id n = i then n\<lparr>n_selected := False\<rparr> else n) xs)
        = Some (original\<lparr>n_selected := False\<rparr>)" for xs
    by (induction xs) (auto split: if_splits)
  from this [of "rev ns"] show "find (\<lambda>n. n_id n = i) (rev ns) = Some original \<Longrightarrow> ?thesis"
    by (simp add: rev_map)
qed

lemma map_fresh_id:
  "newId \<notin> node_ids ns \<Longrightarrow>
   map (\<lambda>n. if n_id n = newId then n\<lparr>n_selected := True\<rparr> else n) ns = ns"
  by (induction ns) (auto simp: node_ids_def)

lemma find_in_ids: "find (\<lambda>n. n_id n = i) ns = Some n \<Longrightarrow> i \<in> set (map n_id ns)"
  by (induction ns) (auto split: if_splits)

text \<open>
  Claim C5. If \<open>i\<close> resolves to no node, \<open>duplicateNode\<close> leaves the state unchanged. If it
  resolves to the node \<open>original\<close> with a (non-empty) kind, then once the deferred
  selection update has run exactly one node \<open>copy\<close> has been added at the end: its id is
  the id of no node that was there, its position is the original's plus \<open>(200, 200)\<close>
  (the sums as the code forms them), it is selected and has the original's kind and data;
  \<open>i\<close> now resolves to the original, deselected, the other nodes and all edges are as
  before.
\<close>

theorem duplicateNode_settled_spec:
  "(getNode i st = None \<longrightarrow> duplicateNode_settled i st = st) \<and>
   (\<forall>original kind.
      getNode i st = Some original \<and> n_type original = Some kind \<and> kind \<noteq> [] \<longrightarrow>
      (\<exists>copy.
         nodes (duplicateNode_settled i st) =
           map (\<lambda>n. if n_id n = i then n\<lparr>n_selected := False\<rparr> else n) (nodes st) @ [copy] \<and>
         n_id copy \<notin> node_ids (nodes st) \<and>
         n_position copy = \<lparr>pos_x = JsAdd (pos_x (n_position original)) (JsNum 200),
                             pos_y = JsAdd (pos_y (n_position original)) (JsNum 200)\<rparr> \<and>
         n_selected copy \<and>
         n_type copy = Some kind \<and>
         n_data copy = n_data original \<and>
         getNode i (duplicateNode_settled i st) = Some (original\<lparr>n_selected := False\<rparr>) \<and>
         getNode (n_id copy) (duplicateNode_settled i st) = Some copy \<and>
         edges (duplicateNode_settled i st) = edges st))"
proof (intro conjI impI allI)
  assume "getNode i st = None"
  then show "duplicateNode_settled i st = st"
    by (simp add: duplicateNode_settled_def duplicateNode_def)
next
  fix original kind
  assume a: "getNode i st = Some original \<and> n_type original = Some kind \<and> kind \<noteq> []"
  let ?newId = "nanoid (used_ids st)"
  let ?copy = "\<lparr>n_id = ?newId, n_type = Some kind, n_data = n_data original,
      n_position = \<lparr>pos_x = JsAdd (pos_x (n_position original)) (JsNum 200),
                    pos_y = JsAdd (pos_y (n_position original)) (JsNum 200)\<rparr>,
      n_origin = (case n_origin original of
                    Some og \<Rightarrow> Some og | None \<Rightarrow> Some (JsNum 0, JsNum (1 / 2))),
      n_selected = True\<rparr>"
  let ?old = "map (\<lambda>n. if n_id n = i then n\<lparr>n_selected := False\<rparr> else n) (nodes st)"
  have fresh: "?newId \<notin> node_ids (nodes st)" by (rule nanoid_not_node_id)
  from a have "i \<in> set (map n_id (rev (nodes st)))"
    unfolding getNode_def using find_in_ids by blast
  then have "i \<in> node_ids (nodes st)" by (simp add: node_ids_def)
  with fresh have ne: "i \<noteq> ?newId" by auto
  have "node_ids ?old = node_ids (nodes st)"
    using node_ids_select [of "\<lambda>n. n_id n = i" False "nodes st"] by simp
  with fresh have "?newId \<notin> node_ids ?old" by simp
  then have keep: "map (\<lambda>n. if n_id n = ?newId then n\<lparr>n_selected := True\<rparr> else n) ?old = ?old"
    by (rule map_fresh_id)
  from a ne have "nodes (duplicateNode_settled i st) =
      map (\<lambda>n. if n_id n = ?newId then n\<lparr>n_selected := True\<rparr> else n) ?old @ [?copy]"
    by (simp add: duplicateNode_settled_def duplicateNode_def addNode_def Let_def save_def
        duplicateNode_timeout_def updateNode_def comp_def)
  with keep have n: "nodes (duplicateNode_settled i st) = ?old @ [?copy]" by simp
  from a have "find (\<lambda>n. n_id n = i) (rev ?old) = Some (original\<lparr>n_selected := False\<rparr>)"
    unfolding getNode_def using find_rev_map_deselect by blast
  with ne n have g1: "getNode i (duplicateNode_settled i st) = Some (original\<lparr>n_selected := False\<rparr>)"
    by (simp add: getNode_def)
  from n have g2: "getNode ?newId (duplicateNode_settled i st) = Some ?copy"
    by (simp add: getNode_def)
  from a have e: "edges (duplicateNode_settled i st) = edges st"
    by (simp add: duplicateNode_settled_def duplicateNode_def addNode_def Let_def save_def
        duplicateNode_timeout_def updateNode_def)
  from n fresh g1 g2 e show "\<exists>copy.
         nodes (duplicateNode_settled i st) =
           map (\<lambda>n. if n_id n = i then n\<lparr>n_selected := False\<rparr> else n) (nodes st) @ [copy] \<and>
         n_id copy \<notin> node_ids (nodes st) \<and>
         n_position copy = \<lparr>pos_x = JsAdd (pos_x (n_position original)) (JsNum 200),
                             pos_y = JsAdd (pos_y (n_position original)) (JsNum 200)\<rparr> \<and>
         n_selected copy \<and>
         n_type copy = Some kind \<and>
         n_data copy = n_data original \<and>
         getNode i (duplicateNode_settled i st) = Some (original\<lparr>n_selected := False\<rparr>) \<and>
         getNode (n_id copy) (duplicateNode_settled i st) = Some copy \<and>
         edges (duplicateNode_settled i st) = edges st"
    by (intro exI [of _ ?copy]) simp
qed

theorem duplicateNode_settled_spec_witness:
  "getNode ''A'' sample_canvas = Some sample_A \<and>
   n_selected sample_A \<and>
   n_type sample_A = Some ''image'' \<and>
   ''image'' \<noteq> [] \<and>
   getNode ''Z'' sample_canvas = None \<and>
   duplicateNode_settled ''Z'' sample_canvas = sample_canvas \<and>
   nodes (duplicateNode_settled ''A'' sample_canvas) =
     [sample_A\<lparr>n_selected := False\<rparr>,
      mk_node ''B'' ''transcribe'',
      (mk_node ''nnn'' ''image'')
        \<lparr>n_position := \<lparr>pos_x = JsAdd (JsNum 10) (JsNum 200),
                         pos_y = JsAdd (JsNum 20) (JsNum 200)\<rparr>,
         n_selected := True\<rparr>]"
  using duplicateNode_settled_spec [of "''A''" sample_canvas]
    duplicateNode_settled_spec [of "''Z''" sample_canvas]
  by (simp add: sample_canvas_eq sample_A_def initial_def mk_node_def mk_edge_def node_ids_def
      getNode_def duplicateNode_settled_def duplicateNode_def addNode_def Let_def save_def
      duplicateNode_timeout_def updateNode_def nanoid_def used_ids_def)

text \<open>
  Claim C6 does not hold of the code. \<open>handleSelectAll\<close> and the node-paste branch of
  \<open>handlePaste\<close> change the node collection without calling \<open>save()\<close>, unlike
  \<open>handleNodesChange\<close>, which saves even for a selection change. On the sample canvas (the
  clipboard holds text only, one node was copied): select-all changes the nodes and arms
  no timer; paste adds a third node and arms no timer.
\<close>

theorem paste_and_select_all_schedule_no_save:
  "nodes (handleSelectAll sample_canvas) \<noteq> nodes sample_canvas \<and>
   save_pending (handleSelectAll sample_canvas) = False \<and>
   length (nodes (handlePaste NoElement sample_text_clipboard (Inl ''unused'') sample_viewport
      sample_window sample_canvas)) = 3 \<and>
   save_pending (handlePaste NoElement sample_text_clipboard (Inl ''unused'') sample_viewport
      sample_window sample_canvas) = False \<and>
   save_pending (handleNodesChange [NodeSelect ''B'' True] sample_canvas) = True"
  by (simp add: sample_canvas_eq sample_A_def initial_def mk_node_def mk_edge_def
      handleSelectAll_def handlePaste_def paste_copied_def sample_text_clipboard_def imageTypes_def
      startsWith_def handleNodesChange_def save_def Let_def)

section \<open>Claims about the save coordinator\<close>

lemma save_step_inv: "save_inv st \<Longrightarrow> save_inv (save_step ok st ev)"
  by (cases ev) (auto simp: save_inv_def save_def save_fire_def save_done_def Let_def
      split: option.splits)

lemma save_run_inv: "save_inv st \<Longrightarrow> save_inv (save_run ok evs st)"
  unfolding save_run_def
  by (induction evs arbitrary: st) (simp_all add: save_step_inv)

lemma save_step_idle:
  "\<not> save_pending st \<Longrightarrow> ev \<noteq> Mutation \<Longrightarrow>
     \<not> save_pending (save_step ok st ev) \<and> requests (save_step ok st ev) = requests st"
  by (cases ev) (auto simp: save_fire_def save_done_def Let_def split: option.splits)

lemma save_run_idle:
  "\<not> save_pending st \<Longrightarrow> Mutation \<notin> set evs \<Longrightarrow>
     \<not> save_pending (save_run ok evs st) \<and> requests (save_run ok evs st) = requests st"
  unfolding save_run_def
proof (induction evs arbitrary: st)
  case Nil
  then show ?case by simp
next
  case (Cons ev evs)
  from Cons.prems have "\<not> save_pending (save_step ok st ev) \<and>
      requests (save_step ok st ev) = requests st"
    by (intro save_step_idle) auto
  with Cons.IH [of "save_step ok st ev"] Cons.prems show ?case by simp
qed

text \<open>
  Claim C7, as the code has it. Along every sequence of events from a freshly opened
  canvas at most one save request is in flight. When the timer fires while a save is in
  flight, the callback returns at its guard: the timer is left disarmed and no request is
  issued, and as long as no further mutation calls \<open>save()\<close> (whatever responses and timer
  events follow) no request is issued and the timer stays disarmed.
\<close>

theorem save_fire_during_save_is_dropped:
  "in_flight (save_run ok evs (initial ns es)) \<le> 1 \<and>
   (save_pending st \<and> is_saving st \<longrightarrow>
      save_fire ok st = st\<lparr>save_pending := False\<rparr> \<and>
      (\<forall>later. Mutation \<notin> set later \<longrightarrow>
         requests (save_run ok later (save_fire ok st)) = requests st \<and>
         \<not> save_pending (save_run ok later (save_fire ok st))))"
proof -
  have "save_inv (initial ns es)" by (simp add: save_inv_def initial_def)
  then have "save_inv (save_run ok evs (initial ns es))" by (rule save_run_inv)
  then have one: "in_flight (save_run ok evs (initial ns es)) \<le> 1"
    by (simp add: save_inv_def split: if_splits)
  have dropped: "save_fire ok st = st\<lparr>save_pending := False\<rparr> \<and>
      (\<forall>later. Mutation \<notin> set later \<longrightarrow>
         requests (save_run ok later (save_fire ok st)) = requests st \<and>
         \<not> save_pending (save_run ok later (save_fire ok st)))"
    if a: "save_pending st \<and> is_saving st"
  proof -
    from a have eq: "save_fire ok st = st\<lparr>save_pending := False\<rparr>"
      by (simp add: save_fire_def Let_def)
    have "requests (save_run ok later (save_fire ok st)) = requests st \<and>
         \<not> save_pending (save_run ok later (save_fire ok st))"
      if "Mutation \<notin> set later" for later
      using save_run_idle [of "st\<lparr>save_pending := False\<rparr>" later ok] eq that by simp
    with eq show ?thesis by blast
  qed
  from one dropped show ?thesis by blast
qed

theorem save_fire_during_save_is_dropped_witness:
  "save_pending (save_run True [Mutation, TimerFires, Mutation] (initial [] [])) \<and>
   is_saving (save_run True [Mutation, TimerFires, Mutation] (initial [] [])) \<and>
   in_flight (save_run True [Mutation, TimerFires, Mutation, TimerFires] (initial [] [])) \<le> 1 \<and>
   save_fire True (save_run True [Mutation, TimerFires, Mutation] (initial [] []))
     = (save_run True [Mutation, TimerFires, Mutation] (initial [] []))\<lparr>save_pending := False\<rparr> \<and>
   Mutation \<notin> set [Response None, TimerFires] \<and>
   requests (save_run True [Response None, TimerFires]
      (save_fire True (save_run True [Mutation, TimerFires, Mutation] (initial [] []))))
     = requests (save_run True [Mutation, TimerFires, Mutation] (initial [] []))"
proof -
  have h: "save_pending (save_run True [Mutation, TimerFires, Mutation] (initial [] [])) \<and>
      is_saving (save_run True [Mutation, TimerFires, Mutation] (initial [] []))"
    by (simp add: save_run_def save_def save_fire_def initial_def Let_def)
  have m: "Mutation \<notin> set [Response None, TimerFires]" by simp
  from save_fire_during_save_is_dropped
    [of True "[Mutation, TimerFires, Mutation, TimerFires]" "[]" "[]"
        "save_run True [Mutation, TimerFires, Mutation] (initial [] [])"] h m
  show ?thesis by blast
qed

text \<open>
  The claim as stated fails: a mutation, the save starts, a second mutation, the timer
  fires during the save. The timer is not re-armed; after the response, and however often
  a timer would fire, the only request ever issued is the first one.
\<close>

theorem save_fired_during_save_never_issued:
  "save_pending (save_run True [Mutation, TimerFires, Mutation, TimerFires] (initial [] [])) = False \<and>
   length (requests (save_run True [Mutation, TimerFires, Mutation, TimerFires] (initial [] []))) = 1 \<and>
   in_flight (save_run True [Mutation, TimerFires, Mutation, TimerFires, Response None]
      (initial [] [])) = 0 \<and>
   length (requests (save_run True
      [Mutation, TimerFires, Mutation, TimerFires, Response None, TimerFires, TimerFires]
      (initial [] []))) = 1"
  by (simp add: save_run_def save_def save_fire_def save_done_def initial_def Let_def)

section \<open>Claims about paste\<close>

lemma paste_clipboard_items_find:
  "paste_clipboard_items clipboardItems upload vp window st =
     (case find has_image clipboardItems of
        None \<Rightarrow> None
      | Some item \<Rightarrow>
          if ci_getType_fails item then Some (Inl ''getType'')
          else Some (handlePasteImage upload vp window
                       (clipboard_file (hd (imageTypes item))) st))"
  by (induction clipboardItems) (auto simp: has_image_def split: list.splits)

text \<open>
  The centre that \<open>handlePasteImage\<close> computes is, read over the reals, the logical point
  under the middle of the window: the window's middle minus the pan, divided by the zoom.
  In the code each of the operations is rounded.
\<close>

lemma viewport_center_exact:
  "exact (JsAdd (JsDiv (JsNeg x) zoom) (JsDiv (JsDiv w (JsNum 2)) zoom)) =
     (exact w / 2 - exact x) / exact zoom"
  by (simp add: diff_divide_distrib)



lemma length_clone_nodes: "length (clone_nodes used ns) = length ns"
  by (induction ns arbitrary: used) (simp_all add: Let_def)

text \<open>
  Claim C9, as the code has it. With the focus outside any text field, a failing clipboard
  read and a failing upload both end in the \<open>catch\<close> of \<open>handlePaste\<close>: the error is
  written to the debug console, no toast is raised, no edge is touched and no image node
  is added, and the gesture goes on as a paste of the copied nodes. So the node
  collection grows by their number, and it is unchanged when there are none.
\<close>

theorem handlePaste_failure_falls_through:
  assumes "\<not> typing activeElement" and "paste_fails clip upload"
  shows "(\<exists>error. handlePaste activeElement clip upload vp window st =
            paste_copied (st\<lparr>console := console st @ [error]\<rparr>)) \<and>
         toasts (handlePaste activeElement clip upload vp window st) = toasts st \<and>
         edges (handlePaste activeElement clip upload vp window st) = edges st \<and>
         length (nodes (handlePaste activeElement clip upload vp window st)) =
           length (nodes st) + length (copiedNodes st) \<and>
         (copiedNodes st = [] \<longrightarrow>
            nodes (handlePaste activeElement clip upload vp window st) = nodes st)"
proof -
  have ex: "\<exists>error. handlePaste activeElement clip upload vp window st =
            paste_copied (st\<lparr>console := console st @ [error]\<rparr>)"
  proof (cases clip)
    case ClipboardUnsupported
    with assms show ?thesis by simp
  next
    case (ClipboardReadFails e)
    with assms show ?thesis by (intro exI [of _ e]) (simp add: handlePaste_def)
  next
    case (ClipboardItems clipboardItems)
    with assms obtain item where
      f: "find has_image clipboardItems = Some item" and
      d: "ci_getType_fails item \<or> isl upload"
      by (auto split: option.splits)
    show ?thesis
    proof (cases "ci_getType_fails item")
      case True
      with assms ClipboardItems f show ?thesis
        by (intro exI [of _ "''getType''"]) (simp add: handlePaste_def paste_clipboard_items_find)
    next
      case False
      with d obtain e where "upload = Inl e" by (cases upload) auto
      with assms ClipboardItems f False show ?thesis
        by (intro exI [of _ e])
          (simp add: handlePaste_def paste_clipboard_items_find handlePasteImage_def)
    qed
  qed
  then obtain error where
    eq: "handlePaste activeElement clip upload vp window st =
            paste_copied (st\<lparr>console := console st @ [error]\<rparr>)"
    by blast
  have "toasts (paste_copied (st\<lparr>console := console st @ [error]\<rparr>)) = toasts st"
    "edges (paste_copied (st\<lparr>console := console st @ [error]\<rparr>)) = edges st"
    "copiedNodes st = [] \<longrightarrow>
       nodes (paste_copied (st\<lparr>console := console st @ [error]\<rparr>)) = nodes st"
    "length (nodes (paste_copied (st\<lparr>console := console st @ [error]\<rparr>))) =
       length (nodes st) + length (copiedNodes st)"
    by (simp_all add: paste_copied_def Let_def length_clone_nodes)
  with ex eq show ?thesis by simp
qed

theorem handlePaste_failure_falls_through_witness:
  "\<not> typing NoElement \<and>
   paste_fails (ClipboardReadFails ''NotAllowedError'') (Inl ''unused'') \<and>
   paste_fails sample_image_clipboard (Inl ''upload failed'') \<and>
   toasts (handlePaste NoElement (ClipboardReadFails ''NotAllowedError'') (Inl ''unused'')
             sample_viewport sample_window sample_canvas) = toasts sample_canvas \<and>
   length (nodes (handlePaste NoElement sample_image_clipboard (Inl ''upload failed'')
             sample_viewport sample_window sample_canvas)) =
     length (nodes sample_canvas) + length (copiedNodes sample_canvas) \<and>
   copiedNodes (initial [mk_node ''A'' ''image''] []) = [] \<and>
   nodes (handlePaste NoElement sample_image_clipboard (Inl ''upload failed'')
             sample_viewport sample_window (initial [mk_node ''A'' ''image''] []))
     = nodes (initial [mk_node ''A'' ''image''] [])"
proof -
  have h: "\<not> typing NoElement"
    "paste_fails (ClipboardReadFails ''NotAllowedError'') (Inl ''unused'')"
    "paste_fails sample_image_clipboard (Inl ''upload failed'')"
    "copiedNodes (initial [mk_node ''A'' ''image''] []) = []"
    by (simp_all add: initial_def sample_image_clipboard_def has_image_def imageTypes_def
        startsWith_def)
  from h handlePaste_failure_falls_through [OF h(1) h(2), of sample_viewport sample_window
      sample_canvas]
    handlePaste_failure_falls_through [OF h(1) h(3), of sample_viewport sample_window
      sample_canvas]
    handlePaste_failure_falls_through [OF h(1) h(3), of sample_viewport sample_window
      "initial [mk_node ''A'' ''image''] []"]
  show ?thesis by simp
qed

text \<open>
  The claim as stated fails: the clipboard read is refused, or the upload fails, while one
  node has been copied. The copy is pasted, so the graph changes, and there is no toast.
\<close>

theorem handlePaste_failure_changes_graph:
  "paste_fails (ClipboardReadFails ''NotAllowedError'') (Inl ''unused'') \<and>
   nodes (handlePaste NoElement (ClipboardReadFails ''NotAllowedError'') (Inl ''unused'')
            sample_viewport sample_window sample_canvas) \<noteq> nodes sample_canvas \<and>
   toasts (handlePaste NoElement (ClipboardReadFails ''NotAllowedError'') (Inl ''unused'')
            sample_viewport sample_window sample_canvas) = [] \<and>
   paste_fails sample_image_clipboard (Inl ''upload failed'') \<and>
   nodes (handlePaste NoElement sample_image_clipboard (Inl ''upload failed'')
            sample_viewport sample_window sample_canvas) \<noteq> nodes sample_canvas \<and>
   toasts (handlePaste NoElement sample_image_clipboard (Inl ''upload failed'')
            sample_viewport sample_window sample_canvas) = []"
  by (simp add: handlePaste_def paste_copied_def Let_def sample_canvas_eq initial_def
      sample_image_clipboard_def has_image_def imageTypes_def startsWith_def
      handlePasteImage_def mk_node_def sample_A_def)

text \<open>
  Claim C10. When the focused element (for the native paste event: its target) is a text
  input, a textarea or a content-editable element, both paste handlers return at once:
  the state, and with it the node and edge collections, is exactly as before, whatever
  the clipboard, the upload and the copied nodes are.
\<close>

theorem paste_ignored_while_typing:
  assumes "typing focused"
  shows "handlePaste focused clip upload vp window st = st \<and>
         handlePasteEvent focused items upload vp window st = Inr st"
  using assms by (simp add: handlePaste_def handlePasteEvent_def)

theorem paste_ignored_while_typing_witness:
  "typing HTMLInputElement \<and> typing HTMLTextAreaElement \<and> typing (HTMLElement True) \<and>
   handlePaste HTMLInputElement sample_image_clipboard (Inr (''https://files/1.png'', ''image/png''))
     sample_viewport sample_window sample_canvas = sample_canvas \<and>
   handlePaste (HTMLElement True) sample_text_clipboard (Inl ''unused'')
     sample_viewport sample_window sample_canvas = sample_canvas \<and>
   handlePasteEvent HTMLTextAreaElement
     (Some [(''image/png'', Some \<lparr>f_name = ''shot.png'', f_type = ''image/png''\<rparr>)])
     (Inr (''https://files/1.png'', ''image/png'')) sample_viewport sample_window
     sample_canvas = Inr sample_canvas"
proof -
  have t: "typing HTMLInputElement" "typing HTMLTextAreaElement" "typing (HTMLElement True)"
    by simp_all
  from paste_ignored_while_typing [OF t(1)] paste_ignored_while_typing [OF t(2)]
    paste_ignored_while_typing [OF t(3)] t
  show ?thesis by simp
qed

end
